theory Spec2Isabelle
  imports
    Main
    "HOL-Library.Word"
    "HOL-Library.Finite_Map"
    "HOL-Library.Char_ord"
    "HOL-Library.List_Lexorder"
begin

section \<open>Data model (models.py)\<close>

text \<open>
  Python \<^verbatim>\<open>bytes\<close> is a list of octets, \<^verbatim>\<open>str\<close> is \<^typ>\<open>string\<close>.
  The dataclass \<^verbatim>\<open>BlobMeta\<close> becomes a record; its field \<^verbatim>\<open>id\<close> is called
  \<open>id_m\<close> because \<^const>\<open>id\<close> is the identity function of HOL. The field
  \<^verbatim>\<open>extra\<close> is a dictionary that the code never inspects; it is a finite map of strings.
\<close>

type_synonym bytes = "8 word list"

record BlobMeta =
  id_m :: string
  name :: string
  owner :: string
  readable_by :: "string list"
  extra :: "(string, string) fmap"

section \<open>The store (persistence.py)\<close>

text \<open>
  \<^verbatim>\<open>BlobPersistence\<close> keeps two files per blob in one directory,
  \<^verbatim>\<open>{storage}/{blob_id}.data\<close> and \<^verbatim>\<open>{storage}/{blob_id}.json\<close>. The directory is
  modelled by two finite maps keyed by the blob identifier, one per file suffix: the
  paths of the two families never coincide and different identifiers give different
  paths. The JSON file holds \<^verbatim>\<open>meta.__dict__\<close> and is read back with
  \<^verbatim>\<open>BlobMeta(**data)\<close>, so the map stores the record itself. Each half can be present
  without the other, as on disk.
\<close>

record store =
  data_files :: "(string, bytes) fmap"
  meta_files :: "(string, BlobMeta) fmap"

definition empty_store :: store where
  "empty_store = \<lparr>data_files = fmempty, meta_files = fmempty\<rparr>"

text \<open>\<^verbatim>\<open>create\<close> opens both files for writing: an existing file is overwritten.\<close>

definition create :: "store \<Rightarrow> BlobMeta \<Rightarrow> bytes \<Rightarrow> store" where
  "create s meta content =
     s\<lparr>data_files := fmupd (id_m meta) content (data_files s),
       meta_files := fmupd (id_m meta) meta (meta_files s)\<rparr>"

text \<open>The readers turn \<^verbatim>\<open>FileNotFoundError\<close> into \<^verbatim>\<open>None\<close>.\<close>

definition read_content :: "store \<Rightarrow> string \<Rightarrow> bytes option" where
  "read_content s blob_id = fmlookup (data_files s) blob_id"

definition read_meta :: "store \<Rightarrow> string \<Rightarrow> BlobMeta option" where
  "read_meta s blob_id = fmlookup (meta_files s) blob_id"

definition read_pair :: "store \<Rightarrow> string \<Rightarrow> (BlobMeta \<times> bytes) option" where
  "read_pair s blob_id =
     (case read_meta s blob_id of
        None \<Rightarrow> None
      | Some meta \<Rightarrow>
          (case read_content s blob_id of
             None \<Rightarrow> None
           | Some content \<Rightarrow> Some (meta, content)))"

text \<open>
  The updates test \<^verbatim>\<open>os.path.exists\<close> first and return \<^verbatim>\<open>False\<close> without
  writing when the file is missing. \<^verbatim>\<open>update_meta\<close> addresses the file by the
  \<^verbatim>\<open>id\<close> field of the metadata it is given.
\<close>

definition update_content :: "store \<Rightarrow> string \<Rightarrow> bytes \<Rightarrow> bool \<times> store" where
  "update_content s blob_id new_content =
     (if fmlookup (data_files s) blob_id = None then (False, s)
      else (True, s\<lparr>data_files := fmupd blob_id new_content (data_files s)\<rparr>))"

definition update_meta :: "store \<Rightarrow> BlobMeta \<Rightarrow> bool \<times> store" where
  "update_meta s meta =
     (if fmlookup (meta_files s) (id_m meta) = None then (False, s)
      else (True, s\<lparr>meta_files := fmupd (id_m meta) meta (meta_files s)\<rparr>))"

definition delete :: "store \<Rightarrow> string \<Rightarrow> bool \<times> store" where
  "delete s blob_id =
     (if fmlookup (data_files s) blob_id = None \<or> fmlookup (meta_files s) blob_id = None
      then (False, s)
      else (True, s\<lparr>data_files := fmdrop blob_id (data_files s),
                     meta_files := fmdrop blob_id (meta_files s)\<rparr>))"

text \<open>
  \<^verbatim>\<open>list_ids\<close> strips \<^verbatim>\<open>.json\<close> from the names \<^verbatim>\<open>os.listdir\<close> returns. The
  order of \<^verbatim>\<open>os.listdir\<close> is arbitrary; the model lists the identifiers sorted.
\<close>

definition list_ids :: "store \<Rightarrow> string list" where
  "list_ids s = sorted_list_of_fset (fmdom (meta_files s))"


section \<open>The service (business.py)\<close>

text \<open>
  The two exceptions of the service are the values of \<open>error\<close>. A service operation
  takes the store and returns its outcome (\<open>Inl\<close> the exception raised, \<open>Inr\<close> the
  value returned) together with the store it leaves behind, so that the state after a
  raised exception is part of the model.
\<close>

datatype error = BlobNotFound | Forbidden

type_synonym 'a outcome = "(error + 'a) \<times> store"

text \<open>
  \<^verbatim>\<open>list(set(xs))\<close> keeps one copy of every element, in the iteration order of a Python
  set, which the language leaves open. The model keeps the last copy of each element
  in place; the theorems below speak about the \<^const>\<open>set\<close> of the result only.
\<close>

definition list_set :: "string list \<Rightarrow> string list" where
  "list_set xs = remdups xs"

text \<open>
  \<^verbatim>\<open>_check_access\<close> reads the metadata and raises or returns it; it writes nothing.
  \<^verbatim>\<open>if not meta\<close> is true for \<^verbatim>\<open>None\<close> only, a dataclass instance being truthy.
\<close>

definition check_access :: "store \<Rightarrow> string \<Rightarrow> string \<Rightarrow> bool \<Rightarrow> bool \<Rightarrow> error + BlobMeta" where
  "check_access s user blob_id read owner_only =
     (case read_meta s blob_id of
        None \<Rightarrow> Inl BlobNotFound
      | Some meta \<Rightarrow>
          if owner_only \<and> user \<noteq> owner meta then Inl Forbidden
          else if read \<and> user \<notin> set (readable_by meta) then Inl Forbidden
          else Inr meta)"

text \<open>
  \<^verbatim>\<open>create_blob\<close> draws the identifier from \<^verbatim>\<open>uuid.uuid4()\<close>; the drawn value is the
  argument \<open>uuid4\<close> of the model. \<^verbatim>\<open>readable_by or []\<close> and \<^verbatim>\<open>extra or {}\<close> replace
  \<^verbatim>\<open>None\<close> by the empty container.
\<close>

definition create_blob ::
  "store \<Rightarrow> string \<Rightarrow> string \<Rightarrow> string \<Rightarrow> bytes \<Rightarrow> string list option \<Rightarrow>
   (string, string) fmap option \<Rightarrow> string outcome" where
  "create_blob s uuid4 user nm content readable_by_arg extra_arg =
     (let blob_id = uuid4;
          readers = list_set ((case readable_by_arg of None \<Rightarrow> [] | Some l \<Rightarrow> l) @ [user]);
          meta = \<lparr>id_m = blob_id, name = nm, owner = user, readable_by = readers,
                  extra = (case extra_arg of None \<Rightarrow> fmempty | Some e \<Rightarrow> e)\<rparr>
      in (Inr blob_id, create s meta content))"

definition update_blob :: "store \<Rightarrow> string \<Rightarrow> string \<Rightarrow> bytes \<Rightarrow> unit outcome" where
  "update_blob s user blob_id new_content =
     (case read_meta s blob_id of
        None \<Rightarrow> (Inl BlobNotFound, s)
      | Some meta \<Rightarrow>
          if user \<noteq> owner meta then (Inl Forbidden, s)
          else (case update_content s blob_id new_content of
                  (ok, s') \<Rightarrow> if \<not> ok then (Inl BlobNotFound, s') else (Inr (), s')))"

definition read_blob :: "store \<Rightarrow> string \<Rightarrow> string \<Rightarrow> bytes outcome" where
  "read_blob s user blob_id =
     (case check_access s user blob_id True False of
        Inl e \<Rightarrow> (Inl e, s)
      | Inr meta \<Rightarrow>
          (case read_content s blob_id of
             None \<Rightarrow> (Inl BlobNotFound, s)
           | Some data \<Rightarrow> (Inr data, s)))"

definition delete_blob :: "store \<Rightarrow> string \<Rightarrow> string \<Rightarrow> unit outcome" where
  "delete_blob s user blob_id =
     (case check_access s user blob_id False True of
        Inl e \<Rightarrow> (Inl e, s)
      | Inr meta \<Rightarrow>
          (case delete s blob_id of
             (ok, s') \<Rightarrow> if \<not> ok then (Inl BlobNotFound, s') else (Inr (), s')))"

text \<open>
  \<^verbatim>\<open>list_blobs\<close> returns one dictionary with the keys \<^verbatim>\<open>id\<close>, \<^verbatim>\<open>name\<close> and
  \<^verbatim>\<open>owner\<close> per readable blob: a triple in that order.
\<close>

definition list_blobs :: "store \<Rightarrow> string \<Rightarrow> (string \<times> string \<times> string) list outcome" where
  "list_blobs s user =
     (Inr (concat (map (\<lambda>blob_id.
              case read_meta s blob_id of
                None \<Rightarrow> []
              | Some meta \<Rightarrow>
                  if user \<in> set (readable_by meta) then [(id_m meta, name meta, owner meta)]
                  else [])
            (list_ids s))), s)"

text \<open>
  \<^verbatim>\<open>modify_blob\<close> renames only when \<^verbatim>\<open>new_name\<close> is truthy: neither \<^verbatim>\<open>None\<close>
  nor the empty string. The result of \<^verbatim>\<open>update_meta\<close> is dropped by every caller.
\<close>

definition modify_blob :: "store \<Rightarrow> string \<Rightarrow> string \<Rightarrow> string option \<Rightarrow> unit outcome" where
  "modify_blob s user blob_id new_name =
     (case check_access s user blob_id False True of
        Inl e \<Rightarrow> (Inl e, s)
      | Inr meta \<Rightarrow>
          (case new_name of
             None \<Rightarrow> (Inr (), s)
           | Some n \<Rightarrow>
               if n = [] then (Inr (), s)
               else (Inr (), snd (update_meta s (meta\<lparr>name := n\<rparr>)))))"

definition replace_blob :: "store \<Rightarrow> string \<Rightarrow> string \<Rightarrow> bytes \<Rightarrow> unit outcome" where
  "replace_blob s user blob_id new_content =
     (case check_access s user blob_id False True of
        Inl e \<Rightarrow> (Inl e, s)
      | Inr meta \<Rightarrow>
          (case update_content s blob_id new_content of
             (ok, s') \<Rightarrow> if \<not> ok then (Inl BlobNotFound, s') else (Inr (), s')))"

definition set_readable_by :: "store \<Rightarrow> string \<Rightarrow> string \<Rightarrow> string list \<Rightarrow> unit outcome" where
  "set_readable_by s user blob_id new_list =
     (case check_access s user blob_id False True of
        Inl e \<Rightarrow> (Inl e, s)
      | Inr meta \<Rightarrow>
          (let new_list' = (if user \<notin> set new_list then new_list @ [user] else new_list)
           in (Inr (), snd (update_meta s (meta\<lparr>readable_by := list_set new_list'\<rparr>)))))"

definition get_meta :: "store \<Rightarrow> string \<Rightarrow> string \<Rightarrow> BlobMeta outcome" where
  "get_meta s user blob_id = (check_access s user blob_id True False, s)"

definition get_readable_by :: "store \<Rightarrow> string \<Rightarrow> string \<Rightarrow> string list outcome" where
  "get_readable_by s user blob_id =
     (case check_access s user blob_id True False of
        Inl e \<Rightarrow> (Inl e, s)
      | Inr meta \<Rightarrow> (Inr (readable_by meta), s))"

definition set_name :: "store \<Rightarrow> string \<Rightarrow> string \<Rightarrow> string \<Rightarrow> unit outcome" where
  "set_name s user blob_id new_name =
     (case check_access s user blob_id False True of
        Inl e \<Rightarrow> (Inl e, s)
      | Inr meta \<Rightarrow> (Inr (), snd (update_meta s (meta\<lparr>name := new_name\<rparr>))))"

text \<open>
  \<^verbatim>\<open>readable_by.append\<close> adds at the end; \<^verbatim>\<open>readable_by.remove\<close> deletes the
  first occurrence, which exists under the guard of \<^verbatim>\<open>remove_reader\<close>.
\<close>

definition add_reader :: "store \<Rightarrow> string \<Rightarrow> string \<Rightarrow> string \<Rightarrow> unit outcome" where
  "add_reader s user blob_id target_user =
     (case check_access s user blob_id False True of
        Inl e \<Rightarrow> (Inl e, s)
      | Inr meta \<Rightarrow>
          if target_user \<notin> set (readable_by meta)
          then (Inr (), snd (update_meta s (meta\<lparr>readable_by := readable_by meta @ [target_user]\<rparr>)))
          else (Inr (), s))"

definition remove_reader :: "store \<Rightarrow> string \<Rightarrow> string \<Rightarrow> string \<Rightarrow> unit outcome" where
  "remove_reader s user blob_id target_user =
     (case check_access s user blob_id False True of
        Inl e \<Rightarrow> (Inl e, s)
      | Inr meta \<Rightarrow>
          if target_user \<in> set (readable_by meta) \<and> target_user \<noteq> owner meta
          then (Inr (), snd (update_meta s (meta\<lparr>readable_by := remove1 target_user (readable_by meta)\<rparr>)))
          else (Inr (), s))"

section \<open>Sequences of service calls\<close>

text \<open>
  The transport layer calls the service once per request and catches both exceptions, so
  a failed call is followed by the next one on the store the failed call left. A call
  is a value of \<open>service_op\<close>; \<open>perform\<close> dispatches it to the function it names and
  drops the value returned; \<open>perform_all\<close> runs a list of calls in order.
\<close>

datatype service_op =
    CreateBlob string string string bytes "string list option" "(string, string) fmap option"
  | UpdateBlob string string bytes
  | ReadBlob string string
  | DeleteBlob string string
  | ListBlobs string
  | ModifyBlob string string "string option"
  | ReplaceBlob string string bytes
  | SetReadableBy string string "string list"
  | GetMeta string string
  | GetReadableBy string string
  | SetName string string string
  | AddReader string string string
  | RemoveReader string string string

definition forget :: "'a outcome \<Rightarrow> unit outcome" where
  "forget r = (case fst r of Inl e \<Rightarrow> Inl e | Inr v \<Rightarrow> Inr (), snd r)"

fun perform :: "service_op \<Rightarrow> store \<Rightarrow> unit outcome" where
  "perform (CreateBlob uuid4 user nm content readers ex) s =
     forget (create_blob s uuid4 user nm content readers ex)"
| "perform (UpdateBlob user blob_id new_content) s = update_blob s user blob_id new_content"
| "perform (ReadBlob user blob_id) s = forget (read_blob s user blob_id)"
| "perform (DeleteBlob user blob_id) s = delete_blob s user blob_id"
| "perform (ListBlobs user) s = forget (list_blobs s user)"
| "perform (ModifyBlob user blob_id new_name) s = modify_blob s user blob_id new_name"
| "perform (ReplaceBlob user blob_id new_content) s = replace_blob s user blob_id new_content"
| "perform (SetReadableBy user blob_id new_list) s = set_readable_by s user blob_id new_list"
| "perform (GetMeta user blob_id) s = forget (get_meta s user blob_id)"
| "perform (GetReadableBy user blob_id) s = forget (get_readable_by s user blob_id)"
| "perform (SetName user blob_id new_name) s = set_name s user blob_id new_name"
| "perform (AddReader user blob_id target_user) s = add_reader s user blob_id target_user"
| "perform (RemoveReader user blob_id target_user) s = remove_reader s user blob_id target_user"

fun perform_all :: "service_op list \<Rightarrow> store \<Rightarrow> store" where
  "perform_all [] s = s"
| "perform_all (call # calls) s = perform_all calls (snd (perform call s))"

text \<open>The identifier a call brings into existence: only \<^verbatim>\<open>create_blob\<close> has one.\<close>

fun new_id :: "service_op \<Rightarrow> string option" where
  "new_id (CreateBlob uuid4 user nm content readers ex) = Some uuid4"
| "new_id call = None"

section \<open>Properties of a store\<close>

text \<open>
  \<open>owner_reads\<close>: the owner of every stored metadata record is one of its readers.
  \<open>keys_match\<close>: every metadata file \<^verbatim>\<open>{k}.json\<close> holds the identifier \<^verbatim>\<open>k\<close>.
\<close>

definition owner_reads :: "store \<Rightarrow> bool" where
  "owner_reads s = fmpred (\<lambda>blob_id meta. owner meta \<in> set (readable_by meta)) (meta_files s)"

definition keys_match :: "store \<Rightarrow> bool" where
  "keys_match s = fmpred (\<lambda>blob_id meta. id_m meta = blob_id) (meta_files s)"

section \<open>Example stores\<close>

text \<open>
  The scenario of the tests: alice owns the blob \<^verbatim>\<open>b1\<close> with content
  \<^verbatim>\<open>b"hello"\<close>. \<open>store_alice_bob\<close> is that store after bob became a reader, and
  \<open>store_half\<close> is the same directory without the content file.
\<close>

definition hello :: bytes where
  "hello = [104, 101, 108, 108, 111]"

definition meta_alice :: BlobMeta where
  "meta_alice = \<lparr>id_m = ''b1'', name = ''demo.txt'', owner = ''alice'',
                  readable_by = [''alice''], extra = fmempty\<rparr>"

definition store_alice :: store where
  "store_alice = \<lparr>data_files = fmupd ''b1'' hello fmempty,
                   meta_files = fmupd ''b1'' meta_alice fmempty\<rparr>"

definition store_alice_bob :: store where
  "store_alice_bob =
     \<lparr>data_files = fmupd ''b1'' hello fmempty,
      meta_files = fmupd ''b1'' (meta_alice\<lparr>readable_by := [''alice'', ''bob'']\<rparr>) fmempty\<rparr>"

definition store_half :: store where
  "store_half = \<lparr>data_files = fmempty, meta_files = fmupd ''b1'' meta_alice fmempty\<rparr>"

section \<open>Facts about the store and the access check\<close>

lemmas store_defs =
  read_meta_def read_content_def update_content_def update_meta_def delete_def create_def

lemmas service_defs =
  check_access_def read_blob_def get_meta_def get_readable_by_def update_blob_def
  replace_blob_def delete_blob_def modify_blob_def set_name_def set_readable_by_def
  add_reader_def remove_reader_def

lemmas example_defs =
  hello_def meta_alice_def store_alice_def store_alice_bob_def store_half_def

lemma create_blob_store_alice:
  "create_blob empty_store ''b1'' ''alice'' ''demo.txt'' hello (Some []) None
     = (Inr ''b1'', store_alice)"
  by (simp add: create_blob_def create_def empty_store_def store_alice_def meta_alice_def
      list_set_def Let_def)

lemma check_access_read_meta:
  "check_access s user blob_id rd oo = Inr meta \<Longrightarrow> read_meta s blob_id = Some meta"
  by (auto simp add: check_access_def split: option.splits if_splits)

lemma check_access_owner:
  "check_access s user blob_id rd True = Inr meta \<Longrightarrow> user = owner meta"
  by (auto simp add: check_access_def split: option.splits if_splits)

lemma owner_reads_read_meta:
  "owner_reads s \<Longrightarrow> read_meta s blob_id = Some meta \<Longrightarrow> owner meta \<in> set (readable_by meta)"
  by (auto simp add: owner_reads_def read_meta_def)

lemma owner_reads_update_meta:
  "owner_reads s \<Longrightarrow> owner meta \<in> set (readable_by meta) \<Longrightarrow>
   owner_reads (snd (update_meta s meta))"
  by (auto simp add: owner_reads_def update_meta_def)

lemma owner_reads_create:
  "owner_reads s \<Longrightarrow> owner meta \<in> set (readable_by meta) \<Longrightarrow>
   owner_reads (create s meta content)"
  by (auto simp add: owner_reads_def create_def)

lemma owner_reads_delete: "owner_reads s \<Longrightarrow> owner_reads (snd (delete s blob_id))"
  by (auto simp add: owner_reads_def delete_def)

lemma owner_reads_update_content:
  "owner_reads s \<Longrightarrow> owner_reads (snd (update_content s blob_id new_content))"
  by (auto simp add: owner_reads_def update_content_def)

lemma owner_reads_empty: "owner_reads empty_store"
  by (simp add: owner_reads_def empty_store_def)

section \<open>The two entry points that replace content\<close>

text \<open>
  C10. \<^verbatim>\<open>update_blob\<close>, which spells its checks out, and \<^verbatim>\<open>replace_blob\<close>, which
  calls \<^verbatim>\<open>_check_access\<close> with \<^verbatim>\<open>owner_only=True\<close>, have the same outcome (the
  same success or the same exception) and leave the same store, for every store, user,
  identifier and content.
\<close>

theorem update_blob_eq_replace_blob:
  "update_blob s user blob_id new_content = replace_blob s user blob_id new_content"
  by (simp add: update_blob_def replace_blob_def check_access_def split: option.split)


text \<open>A concrete call of each entry point by a user who does not own the blob.\<close>

theorem update_blob_eq_replace_blob_witness:
  "update_blob store_alice ''bob'' ''b1'' hello = (Inl Forbidden, store_alice)
   \<and> replace_blob store_alice ''bob'' ''b1'' hello = (Inl Forbidden, store_alice)"
proof -
  have "update_blob store_alice ''bob'' ''b1'' hello = (Inl Forbidden, store_alice)"
    by (simp add: update_blob_def read_meta_def store_alice_def meta_alice_def)
  then show ?thesis
    using update_blob_eq_replace_blob [of store_alice "''bob''" "''b1''" hello] by simp
qed

section \<open>The owner is always a reader\<close>

lemma owner_reads_perform: "owner_reads s \<Longrightarrow> owner_reads (snd (perform call s))"
proof (cases call)
  case (CreateBlob uuid4 user nm content readers ex)
  assume "owner_reads s"
  then show ?thesis unfolding CreateBlob
    by (simp add: forget_def create_blob_def Let_def owner_reads_create list_set_def)
next
  case (UpdateBlob user blob_id new_content)
  assume "owner_reads s"
  then show ?thesis unfolding UpdateBlob
    using owner_reads_update_content [of s blob_id new_content]
    by (auto simp add: update_blob_def split: option.splits prod.splits)
next
  case (ReadBlob user blob_id)
  assume "owner_reads s"
  then show ?thesis unfolding ReadBlob
    by (simp add: forget_def read_blob_def split: option.splits sum.splits)
next
  case (DeleteBlob user blob_id)
  assume "owner_reads s"
  then show ?thesis unfolding DeleteBlob
    using owner_reads_delete [of s blob_id]
    by (auto simp add: delete_blob_def split: sum.splits prod.splits)
next
  case (ListBlobs user)
  assume "owner_reads s"
  then show ?thesis unfolding ListBlobs by (simp add: forget_def list_blobs_def)
next
  case (ModifyBlob user blob_id new_name)
  assume "owner_reads s"
  then show ?thesis unfolding ModifyBlob
    by (auto simp add: modify_blob_def split: sum.splits option.splits
        dest!: check_access_read_meta intro!: owner_reads_update_meta
        dest: owner_reads_read_meta)
next
  case (ReplaceBlob user blob_id new_content)
  assume "owner_reads s"
  then show ?thesis unfolding ReplaceBlob
    using owner_reads_update_content [of s blob_id new_content]
    by (auto simp add: replace_blob_def split: sum.splits prod.splits)
next
  case (SetReadableBy user blob_id new_list)
  assume "owner_reads s"
  then show ?thesis unfolding SetReadableBy
    by (auto simp add: set_readable_by_def list_set_def split: sum.splits
        dest!: check_access_owner intro!: owner_reads_update_meta)
next
  case (GetMeta user blob_id)
  assume "owner_reads s"
  then show ?thesis unfolding GetMeta by (simp add: forget_def get_meta_def)
next
  case (GetReadableBy user blob_id)
  assume "owner_reads s"
  then show ?thesis unfolding GetReadableBy
    by (simp add: forget_def get_readable_by_def split: sum.splits)
next
  case (SetName user blob_id new_name)
  assume "owner_reads s"
  then show ?thesis unfolding SetName
    by (auto simp add: set_name_def split: sum.splits
        dest!: check_access_read_meta intro!: owner_reads_update_meta
        dest: owner_reads_read_meta)
next
  case (AddReader user blob_id target_user)
  assume "owner_reads s"
  then show ?thesis unfolding AddReader
    by (auto simp add: add_reader_def split: sum.splits
        dest!: check_access_read_meta intro!: owner_reads_update_meta
        dest: owner_reads_read_meta)
next
  case (RemoveReader user blob_id target_user)
  assume "owner_reads s"
  then show ?thesis unfolding RemoveReader
    by (auto simp add: remove_reader_def split: sum.splits
        dest!: check_access_read_meta intro!: owner_reads_update_meta
        dest: owner_reads_read_meta)
qed

lemma owner_reads_perform_all: "owner_reads s \<Longrightarrow> owner_reads (perform_all calls s)"
  by (induction calls arbitrary: s) (simp_all add: owner_reads_perform)

lemma create_blob_stores_owner:
  "\<exists>meta. read_meta (snd (create_blob s uuid4 user nm content readers ex)) uuid4 = Some meta
         \<and> owner meta = user \<and> user \<in> set (readable_by meta)"
  by (simp add: create_blob_def create_def read_meta_def list_set_def Let_def)

text \<open>
  C1. The owner of every object is one of its readers after any service operation:
  every call, successful or not, keeps \<open>owner_reads\<close>; every store the service builds
  from the empty directory has it; and the metadata \<^verbatim>\<open>create_blob\<close> stores has the
  owner among its readers whatever list was supplied, also none. The call
  \<^verbatim>\<open>set_readable_by\<close> and the reader-list mutations are cases of \<open>perform\<close>.
\<close>

theorem owner_always_reader:
  "(owner_reads s \<longrightarrow> owner_reads (snd (perform call s)))
   \<and> owner_reads (perform_all calls empty_store)
   \<and> (\<exists>meta. read_meta (snd (create_blob s uuid4 user nm content readers ex)) uuid4 = Some meta
            \<and> owner meta = user \<and> user \<in> set (readable_by meta))"
proof (intro conjI impI)
  assume "owner_reads s"
  then show "owner_reads (snd (perform call s))" by (rule owner_reads_perform)
next
  show "owner_reads (perform_all calls empty_store)"
    using owner_reads_empty by (rule owner_reads_perform_all)
next
  show "\<exists>meta. read_meta (snd (create_blob s uuid4 user nm content readers ex)) uuid4 = Some meta
          \<and> owner meta = user \<and> user \<in> set (readable_by meta)"
    by (rule create_blob_stores_owner)
qed

theorem owner_always_reader_witness:
  "owner_reads store_alice
   \<and> owner_reads (snd (perform (SetReadableBy ''alice'' ''b1'' [''bob'']) store_alice))
   \<and> map_option (\<lambda>meta. set (readable_by meta))
         (read_meta (snd (perform (SetReadableBy ''alice'' ''b1'' [''bob'']) store_alice)) ''b1'')
       = Some {''alice'', ''bob''}"
proof -
  have inv: "owner_reads store_alice"
    by (auto simp add: owner_reads_def store_alice_def meta_alice_def)
  have "read_meta (snd (perform (SetReadableBy ''alice'' ''b1'' [''bob'']) store_alice)) ''b1''
       = Some (meta_alice\<lparr>readable_by := list_set [''bob'', ''alice'']\<rparr>)"
    by (simp add: set_readable_by_def check_access_def store_defs
        store_alice_def meta_alice_def)
  then have stored: "map_option (\<lambda>meta. set (readable_by meta))
         (read_meta (snd (perform (SetReadableBy ''alice'' ''b1'' [''bob'']) store_alice)) ''b1'')
       = Some {''alice'', ''bob''}"
    by (simp add: list_set_def insert_commute)
  from owner_always_reader [of store_alice "SetReadableBy ''alice'' ''b1'' [''bob'']", THEN conjunct1]
    inv
  have "owner_reads (snd (perform (SetReadableBy ''alice'' ''b1'' [''bob'']) store_alice))"
    by (rule mp)
  with inv stored show ?thesis
    by (intro conjI)
qed

section \<open>Absent metadata\<close>



section \<open>Incomplete records\<close>




section \<open>Replacing the reader list\<close>

lemma keys_match_update_meta: "keys_match s \<Longrightarrow> keys_match (snd (update_meta s meta))"
  by (auto simp add: keys_match_def update_meta_def)

lemma keys_match_create: "keys_match s \<Longrightarrow> keys_match (create s meta content)"
  by (auto simp add: keys_match_def create_def)

lemma keys_match_perform: "keys_match s \<Longrightarrow> keys_match (snd (perform call s))"
proof (induction call s rule: perform.induct)
  case (1 uuid4 user nm content readers ex s)
  then show ?case by (simp add: forget_def create_blob_def Let_def keys_match_create)
next
  case (2 user blob_id new_content s)
  then show ?case
    by (auto simp add: keys_match_def update_blob_def update_content_def split: option.splits)
next
  case (4 user blob_id s)
  then show ?case
    by (auto simp add: keys_match_def delete_blob_def delete_def split: sum.splits)
next
  case (7 user blob_id new_content s)
  then show ?case
    by (auto simp add: keys_match_def replace_blob_def update_content_def split: sum.splits)
qed (auto simp add: forget_def read_blob_def list_blobs_def modify_blob_def set_readable_by_def
      get_meta_def get_readable_by_def set_name_def add_reader_def remove_reader_def
      keys_match_update_meta split: sum.splits option.splits)

lemma keys_match_perform_all: "keys_match (perform_all calls empty_store)"
proof -
  have "keys_match s \<Longrightarrow> keys_match (perform_all calls s)" for s
    by (induction calls arbitrary: s) (simp_all add: keys_match_perform)
  moreover have "keys_match empty_store"
    by (simp add: keys_match_def empty_store_def)
  ultimately show ?thesis .
qed

text \<open>
  C4. For an object stored under its own identifier (as every object the service or
  the store has written is, see \<open>keys_match_perform_all\<close>) and a call by its owner,
  \<^verbatim>\<open>set_readable_by\<close> succeeds and the metadata stored afterwards is the old one
  with a reader list whose elements are exactly those of the supplied list together
  with the owner: the owner cannot be removed by replacing the list.
\<close>

theorem set_readable_by_union:
  assumes "read_meta s blob_id = Some meta"
      and "id_m meta = blob_id"
      and "user = owner meta"
  shows "fst (set_readable_by s user blob_id new_list) = Inr ()
       \<and> (\<exists>readers. read_meta (snd (set_readable_by s user blob_id new_list)) blob_id
                       = Some (meta\<lparr>readable_by := readers\<rparr>)
                   \<and> set readers = set new_list \<union> {owner meta}
                   \<and> owner meta \<in> set readers)"
proof -
  have access: "check_access s user blob_id False True = Inr meta"
    using assms by (simp add: check_access_def)
  define new_list' where "new_list' = (if user \<notin> set new_list then new_list @ [user] else new_list)"
  have elems: "set (list_set new_list') = set new_list \<union> {owner meta}"
    using assms(3) by (auto simp add: new_list'_def list_set_def)
  have result: "set_readable_by s user blob_id new_list
      = (Inr (), snd (update_meta s (meta\<lparr>readable_by := list_set new_list'\<rparr>)))"
    by (simp add: set_readable_by_def access new_list'_def)
  have "read_meta (snd (update_meta s (meta\<lparr>readable_by := list_set new_list'\<rparr>))) blob_id
      = Some (meta\<lparr>readable_by := list_set new_list'\<rparr>)"
    using assms(1,2) by (simp add: update_meta_def read_meta_def)
  with elems show ?thesis
    unfolding result by auto
qed

theorem set_readable_by_union_witness:
  "read_meta store_alice ''b1'' = Some meta_alice
   \<and> id_m meta_alice = ''b1'' \<and> ''alice'' = owner meta_alice
   \<and> fst (set_readable_by store_alice ''alice'' ''b1'' [''bob'']) = Inr ()
   \<and> (\<exists>readers. read_meta (snd (set_readable_by store_alice ''alice'' ''b1'' [''bob''])) ''b1''
                   = Some (meta_alice\<lparr>readable_by := readers\<rparr>)
               \<and> set readers = {''alice'', ''bob''})"
proof -
  have h1: "read_meta store_alice ''b1'' = Some meta_alice"
    by (simp add: read_meta_def store_alice_def)
  have h2: "id_m meta_alice = ''b1''" and h3: "''alice'' = owner meta_alice"
    by (simp_all add: meta_alice_def)
  have "set [''bob''] \<union> {owner meta_alice} = {''alice'', ''bob''}"
    by (auto simp add: meta_alice_def)
  then show ?thesis
    using h1 h2 h3 set_readable_by_union [OF h1 h2 h3, of "[''bob'']"] by auto
qed

section \<open>Removing and adding a reader\<close>

text \<open>
  C5. Called by the owner of an existing object, \<^verbatim>\<open>remove_reader\<close> with the owner
  as target, or with a target that is not in the reader list, succeeds and leaves the
  whole store, hence the reader set, as it was.
\<close>

theorem remove_reader_noop:
  assumes "read_meta s blob_id = Some meta"
      and "user = owner meta"
      and "target_user = owner meta \<or> target_user \<notin> set (readable_by meta)"
  shows "remove_reader s user blob_id target_user = (Inr (), s)"
proof -
  have "check_access s user blob_id False True = Inr meta"
    using assms(1,2) by (simp add: check_access_def)
  moreover have "\<not> (target_user \<in> set (readable_by meta) \<and> target_user \<noteq> owner meta)"
    using assms(3) by blast
  ultimately show ?thesis by (auto simp add: remove_reader_def)
qed

theorem remove_reader_noop_witness:
  "read_meta store_alice_bob ''b1'' = Some (meta_alice\<lparr>readable_by := [''alice'', ''bob'']\<rparr>)
   \<and> remove_reader store_alice_bob ''alice'' ''b1'' ''alice'' = (Inr (), store_alice_bob)
   \<and> remove_reader store_alice_bob ''alice'' ''b1'' ''carol'' = (Inr (), store_alice_bob)
   \<and> remove_reader store_alice_bob ''alice'' ''b1'' ''bob'' = (Inr (), store_alice)"
proof -
  let ?m = "meta_alice\<lparr>readable_by := [''alice'', ''bob'']\<rparr>"
  have h1: "read_meta store_alice_bob ''b1'' = Some ?m"
    by (simp add: read_meta_def store_alice_bob_def)
  have h2: "''alice'' = owner ?m" by (simp add: meta_alice_def)
  have t1: "''alice'' = owner ?m \<or> ''alice'' \<notin> set (readable_by ?m)"
    by (simp add: meta_alice_def)
  have t2: "''carol'' = owner ?m \<or> ''carol'' \<notin> set (readable_by ?m)"
    by (simp add: meta_alice_def)
  have removed: "remove_reader store_alice_bob ''alice'' ''b1'' ''bob'' = (Inr (), store_alice)"
    by (simp add: remove_reader_def check_access_def read_meta_def update_meta_def
        store_alice_bob_def store_alice_def meta_alice_def)
  show ?thesis
    using h1 removed remove_reader_noop [OF h1 h2 t1] remove_reader_noop [OF h1 h2 t2]
    by simp
qed

text \<open>
  C6. \<^verbatim>\<open>add_reader\<close> is idempotent: a second call with the same arguments, on the
  store the first call left, has the outcome of the first call and leaves that same
  store, so the reader set after two calls is the reader set after one. Adding a user
  who is already a reader succeeds and changes nothing.
\<close>

theorem add_reader_idempotent:
  "add_reader (snd (add_reader s user blob_id target_user)) user blob_id target_user
     = add_reader s user blob_id target_user
   \<and> (\<forall>meta. read_meta s blob_id = Some meta \<and> user = owner meta
              \<and> target_user \<in> set (readable_by meta)
        \<longrightarrow> add_reader s user blob_id target_user = (Inr (), s))"
proof (intro conjI allI impI)
  show "add_reader (snd (add_reader s user blob_id target_user)) user blob_id target_user
     = add_reader s user blob_id target_user"
  proof (cases "check_access s user blob_id False True")
    case (Inl e)
    then show ?thesis by (simp add: add_reader_def)
  next
    case (Inr meta)
    then have stored: "read_meta s blob_id = Some meta" and own: "user = owner meta"
      by (auto dest: check_access_read_meta check_access_owner)
    show ?thesis
    proof (cases "target_user \<in> set (readable_by meta)")
      case True
      with Inr show ?thesis by (simp add: add_reader_def)
    next
      case False
      let ?meta' = "meta\<lparr>readable_by := readable_by meta @ [target_user]\<rparr>"
      let ?s' = "snd (update_meta s ?meta')"
      have first: "add_reader s user blob_id target_user = (Inr (), ?s')"
        using Inr False by (simp add: add_reader_def)
      show ?thesis
      proof (cases "id_m meta = blob_id")
        case True
        with stored have "read_meta ?s' blob_id = Some ?meta'"
          by (simp add: update_meta_def read_meta_def)
        with own have "add_reader ?s' user blob_id target_user = (Inr (), ?s')"
          by (simp add: add_reader_def check_access_def)
        with first show ?thesis by simp
      next
        case other: False
        with stored have again: "read_meta ?s' blob_id = Some meta"
          by (auto simp add: update_meta_def read_meta_def)
        have "snd (update_meta ?s' ?meta') = ?s'"
          by (simp add: update_meta_def)
        with again own False have "add_reader ?s' user blob_id target_user = (Inr (), ?s')"
          by (simp add: add_reader_def check_access_def)
        with first show ?thesis by simp
      qed
    qed
  qed
next
  fix meta
  assume "read_meta s blob_id = Some meta \<and> user = owner meta
            \<and> target_user \<in> set (readable_by meta)"
  then show "add_reader s user blob_id target_user = (Inr (), s)"
    by (simp add: add_reader_def check_access_def)
qed

theorem add_reader_idempotent_witness:
  "add_reader store_alice ''alice'' ''b1'' ''bob'' = (Inr (), store_alice_bob)
   \<and> add_reader store_alice_bob ''alice'' ''b1'' ''bob'' = (Inr (), store_alice_bob)
   \<and> read_meta store_alice_bob ''b1'' = Some (meta_alice\<lparr>readable_by := [''alice'', ''bob'']\<rparr>)
   \<and> ''alice'' = owner (meta_alice\<lparr>readable_by := [''alice'', ''bob'']\<rparr>)
   \<and> ''bob'' \<in> set (readable_by (meta_alice\<lparr>readable_by := [''alice'', ''bob'']\<rparr>))"
proof -
  have once: "add_reader store_alice ''alice'' ''b1'' ''bob'' = (Inr (), store_alice_bob)"
    by (simp add: add_reader_def check_access_def read_meta_def update_meta_def
        store_alice_bob_def store_alice_def meta_alice_def)
  have stored: "read_meta store_alice_bob ''b1''
      = Some (meta_alice\<lparr>readable_by := [''alice'', ''bob'']\<rparr>)"
    by (simp add: read_meta_def store_alice_bob_def)
  show ?thesis
    using once stored add_reader_idempotent [of store_alice "''alice''" "''b1''" "''bob''"]
    by (simp add: meta_alice_def)
qed

section \<open>Create, then read\<close>

text \<open>
  C7. Round trip: \<^verbatim>\<open>create_blob\<close> returns the identifier it drew; on the store it
  leaves, \<^verbatim>\<open>read_blob\<close> by the owner returns exactly the content given, and
  \<^verbatim>\<open>get_meta\<close> by the owner returns metadata with the name and the owner given.
  This holds for every store before, every drawn identifier and every reader list.
\<close>

theorem create_read_roundtrip:
  "fst (create_blob s uuid4 user nm content readers ex) = Inr uuid4
   \<and> read_blob (snd (create_blob s uuid4 user nm content readers ex)) user uuid4
       = (Inr content, snd (create_blob s uuid4 user nm content readers ex))
   \<and> (\<exists>meta. get_meta (snd (create_blob s uuid4 user nm content readers ex)) user uuid4
               = (Inr meta, snd (create_blob s uuid4 user nm content readers ex))
            \<and> name meta = nm \<and> owner meta = user)"
proof -
  define meta where "meta = \<lparr>id_m = uuid4, name = nm, owner = user,
      readable_by = list_set ((case readers of None \<Rightarrow> [] | Some l \<Rightarrow> l) @ [user]),
      extra = (case ex of None \<Rightarrow> fmempty | Some e \<Rightarrow> e)\<rparr>"
  define s' where "s' = create s meta content"
  have made: "create_blob s uuid4 user nm content readers ex = (Inr uuid4, s')"
    by (simp add: create_blob_def Let_def s'_def meta_def)
  have stored: "read_meta s' uuid4 = Some meta" "read_content s' uuid4 = Some content"
    by (simp_all add: s'_def create_def read_meta_def read_content_def meta_def)
  have reader: "user \<in> set (readable_by meta)"
    by (simp add: meta_def list_set_def)
  have access: "check_access s' user uuid4 True False = Inr meta"
    using stored(1) reader by (simp add: check_access_def)
  have "read_blob s' user uuid4 = (Inr content, s')"
    using access stored(2) by (simp add: read_blob_def)
  moreover have "get_meta s' user uuid4 = (Inr meta, s')"
    using access by (simp add: get_meta_def)
  moreover have "name meta = nm" "owner meta = user"
    by (simp_all add: meta_def)
  ultimately show ?thesis
    unfolding made by simp
qed

theorem create_read_roundtrip_witness:
  "create_blob empty_store ''b1'' ''alice'' ''demo.txt'' hello (Some []) None
     = (Inr ''b1'', store_alice)
   \<and> read_blob store_alice ''alice'' ''b1'' = (Inr hello, store_alice)
   \<and> get_meta store_alice ''alice'' ''b1'' = (Inr meta_alice, store_alice)"
proof -
  have get: "get_meta store_alice ''alice'' ''b1'' = (Inr meta_alice, store_alice)"
    by (simp add: get_meta_def check_access_def read_meta_def store_alice_def meta_alice_def)
  show ?thesis
    using create_blob_store_alice get
      create_read_roundtrip [of empty_store "''b1''" "''alice''" "''demo.txt''" hello "Some []" None]
    by simp
qed

section \<open>Content is replaced by the owner only\<close>

text \<open>
  C8. For an existing object and a user who is not its owner, both \<^verbatim>\<open>update_blob\<close>
  and \<^verbatim>\<open>replace_blob\<close> raise \<^verbatim>\<open>Forbidden\<close> and leave the whole store, hence the
  stored content, as it was: the check comes before any write.
\<close>

theorem update_by_non_owner_forbidden:
  assumes "read_meta s blob_id = Some meta"
      and "user \<noteq> owner meta"
  shows "update_blob s user blob_id new_content = (Inl Forbidden, s)
       \<and> replace_blob s user blob_id new_content = (Inl Forbidden, s)
       \<and> read_content (snd (update_blob s user blob_id new_content)) blob_id
            = read_content s blob_id
       \<and> read_content (snd (replace_blob s user blob_id new_content)) blob_id
            = read_content s blob_id"
  using assms by (simp add: update_blob_def replace_blob_def check_access_def)

theorem update_by_non_owner_forbidden_witness:
  "read_meta store_alice ''b1'' = Some meta_alice \<and> ''bob'' \<noteq> owner meta_alice
   \<and> update_blob store_alice ''bob'' ''b1'' [120] = (Inl Forbidden, store_alice)
   \<and> replace_blob store_alice ''bob'' ''b1'' [120] = (Inl Forbidden, store_alice)
   \<and> read_content store_alice ''b1'' = Some hello"
proof -
  have h1: "read_meta store_alice ''b1'' = Some meta_alice"
    by (simp add: read_meta_def store_alice_def)
  have h2: "''bob'' \<noteq> owner meta_alice"
    by (simp add: meta_alice_def)
  have "read_content store_alice ''b1'' = Some hello"
    by (simp add: read_content_def store_alice_def)
  then show ?thesis
    using h1 h2 update_by_non_owner_forbidden [OF h1 h2, of "[120]"] by simp
qed

section \<open>After a delete\<close>

lemma update_meta_keeps_absent:
  "read_meta s blob_id = None \<Longrightarrow> read_meta (snd (update_meta s meta)) blob_id = None"
  by (auto simp add: update_meta_def read_meta_def)

lemma perform_keeps_absent:
  assumes "read_meta s blob_id = None" and "new_id call \<noteq> Some blob_id"
  shows "read_meta (snd (perform call s)) blob_id = None"
proof (cases call)
  case (CreateBlob uuid4 user nm content readers ex)
  with assms show ?thesis
    by (simp add: forget_def create_blob_def Let_def create_def read_meta_def)
next
  case (UpdateBlob user b new_content)
  with assms show ?thesis
    by (auto simp add: update_blob_def update_content_def read_meta_def split: option.splits)
next
  case (DeleteBlob user b)
  with assms show ?thesis
    by (auto simp add: delete_blob_def delete_def read_meta_def split: sum.splits)
next
  case (ReplaceBlob user b new_content)
  with assms show ?thesis
    by (auto simp add: replace_blob_def update_content_def read_meta_def split: sum.splits)
qed (use assms in \<open>auto simp add: forget_def read_blob_def list_blobs_def modify_blob_def
      set_readable_by_def get_meta_def get_readable_by_def set_name_def add_reader_def
      remove_reader_def update_meta_keeps_absent split: sum.splits option.splits\<close>)

lemma perform_all_keeps_absent:
  "read_meta s blob_id = None \<Longrightarrow> Some blob_id \<notin> set (map new_id calls) \<Longrightarrow>
   read_meta (perform_all calls s) blob_id = None"
proof (induction calls arbitrary: s)
  case Nil
  then show ?case by simp
next
  case (Cons call calls)
  from Cons.prems have "new_id call \<noteq> Some blob_id" by auto
  with Cons.prems(1) have "read_meta (snd (perform call s)) blob_id = None"
    by (rule perform_keeps_absent)
  moreover from Cons.prems(2) have "Some blob_id \<notin> set (map new_id calls)" by simp
  ultimately show ?case using Cons.IH by simp
qed

lemma delete_removes:
  "fst (delete t blob_id) \<Longrightarrow>
   read_content (snd (delete t blob_id)) blob_id = None
   \<and> read_meta (snd (delete t blob_id)) blob_id = None"
  by (auto simp add: delete_def read_content_def read_meta_def split: if_splits)

lemma delete_twice: "delete (snd (delete t blob_id)) blob_id = (False, snd (delete t blob_id))"
  by (simp add: delete_def)

text \<open>
  C9. After a successful \<^verbatim>\<open>delete_blob\<close>, in the store it leaves and in every store
  reached from it by further service calls that do not create the same identifier
  again (identifiers are never reused), reading, updating and deleting that identifier
  raise \<^verbatim>\<open>BlobNotFound\<close> for every user. In the store, a successful \<^verbatim>\<open>delete\<close>
  leaves neither the content nor the metadata of the identifier, and \<^verbatim>\<open>delete\<close>
  called again on the same identifier returns \<^verbatim>\<open>False\<close> and changes nothing.
\<close>

theorem deleted_blob_not_found:
  assumes "delete_blob s user blob_id = (Inr (), s')"
      and "Some blob_id \<notin> set (map new_id calls)"
      and "later = perform_all calls s'"
  shows "read_blob later user' blob_id = (Inl BlobNotFound, later)
       \<and> get_meta later user' blob_id = (Inl BlobNotFound, later)
       \<and> update_blob later user' blob_id new_content = (Inl BlobNotFound, later)
       \<and> replace_blob later user' blob_id new_content = (Inl BlobNotFound, later)
       \<and> delete_blob later user' blob_id = (Inl BlobNotFound, later)
       \<and> (fst (delete t blob_id) \<longrightarrow>
             read_content (snd (delete t blob_id)) blob_id = None
           \<and> read_meta (snd (delete t blob_id)) blob_id = None)
       \<and> delete (snd (delete t blob_id)) blob_id = (False, snd (delete t blob_id))"
proof -
  from assms(1) have "fst (delete s blob_id)" and "s' = snd (delete s blob_id)"
    by (auto simp add: delete_blob_def split: sum.splits prod.splits if_splits)
  then have "read_meta s' blob_id = None"
    using delete_removes [of s blob_id] by simp
  then have gone: "read_meta later blob_id = None"
    unfolding assms(3) using assms(2) by (rule perform_all_keeps_absent)
  then have denied: "check_access later user' blob_id rd oo = Inl BlobNotFound" for rd oo
    by (simp add: check_access_def)
  have "read_blob later user' blob_id = (Inl BlobNotFound, later)"
    "get_meta later user' blob_id = (Inl BlobNotFound, later)"
    "replace_blob later user' blob_id new_content = (Inl BlobNotFound, later)"
    "delete_blob later user' blob_id = (Inl BlobNotFound, later)"
    by (simp_all add: denied read_blob_def get_meta_def replace_blob_def delete_blob_def)
  moreover have "update_blob later user' blob_id new_content = (Inl BlobNotFound, later)"
    using gone by (simp add: update_blob_def)
  ultimately show ?thesis
    using delete_removes [of t blob_id] delete_twice [of t blob_id] by blast
qed

theorem deleted_blob_not_found_witness:
  "delete_blob store_alice ''alice'' ''b1'' = (Inr (), empty_store)
   \<and> perform_all [AddReader ''alice'' ''b1'' ''bob''] empty_store = empty_store
   \<and> read_blob empty_store ''alice'' ''b1'' = (Inl BlobNotFound, empty_store)
   \<and> update_blob empty_store ''alice'' ''b1'' hello = (Inl BlobNotFound, empty_store)
   \<and> delete_blob empty_store ''alice'' ''b1'' = (Inl BlobNotFound, empty_store)
   \<and> delete store_alice ''b1'' = (True, empty_store)
   \<and> delete empty_store ''b1'' = (False, empty_store)"
proof -
  have del: "delete store_alice ''b1'' = (True, empty_store)"
    by (simp add: delete_def store_alice_def empty_store_def fmdrop_fmupd_same)
  have "check_access store_alice ''alice'' ''b1'' False True = Inr meta_alice"
    by (simp add: check_access_def read_meta_def store_alice_def meta_alice_def)
  then have h1: "delete_blob store_alice ''alice'' ''b1'' = (Inr (), empty_store)"
    by (simp add: delete_blob_def del)
  have h2: "Some ''b1'' \<notin> set (map new_id [AddReader ''alice'' ''b1'' ''bob''])"
    by simp
  have h3: "empty_store = perform_all [AddReader ''alice'' ''b1'' ''bob''] empty_store"
    by (simp add: add_reader_def check_access_def read_meta_def empty_store_def)
  show ?thesis
    using h1 h3 del
      deleted_blob_not_found [OF h1 h2 h3, of "''alice''" hello store_alice]
    by simp
qed

end
